theory Spec2Isabelle
  imports Main "HOL-Library.Word"
begin

section \<open>The accelerator runtime seen by the stream manager\<close>

text \<open>
  \<^verbatim>\<open>src/cuda/stream_manager.cpp\<close> calls seven functions of the accelerator runtime and
  of the math library, and two accessors of the host framework. They are the
  environment of the program; the model below is a small deterministic runtime that
  hands out fresh objects, answers each call with a status, and keeps a log of the
  calls it received.

  A stream and a math-library handle are opaque values; they are numbered here.
\<close>

type_synonym cudaStream_t = nat
type_synonym cublasHandle_t = nat

datatype status = Success | Failed

datatype call =
    SetDevice int
  | StreamCreate
  | BlasCreate
  | BlasSetStream cublasHandle_t cudaStream_t
  | StreamSynchronize cudaStream_t
  | StreamDestroy cudaStream_t
  | BlasDestroy cublasHandle_t

record runtime =
  device_count :: nat
  current_device :: int
  max_streams :: nat
  max_handles :: nat
  next_stream :: cudaStream_t
  next_handle :: cublasHandle_t
  live_streams :: "cudaStream_t list"
  live_handles :: "cublasHandle_t list"
  bound :: "cublasHandle_t \<Rightarrow> cudaStream_t option"
  pending :: "cudaStream_t \<Rightarrow> nat"
  current_stream :: cudaStream_t
  current_blas_handle :: cublasHandle_t
  calls :: "call list"

definition logged :: "call \<Rightarrow> runtime \<Rightarrow> runtime" where
  "logged c rt = rt\<lparr>calls := calls rt @ [c]\<rparr>"

text \<open>\<^verbatim>\<open>cudaSetDevice\<close>: fails on a device the machine does not have.\<close>

definition cudaSetDevice :: "int \<Rightarrow> runtime \<Rightarrow> status \<times> runtime" where
  "cudaSetDevice d rt =
     (if 0 \<le> d \<and> d < int (device_count rt)
      then (Success, logged (SetDevice d) (rt\<lparr>current_device := d\<rparr>))
      else (Failed, logged (SetDevice d) rt))"

text \<open>
  \<^verbatim>\<open>cudaStreamCreate\<close>: fails when the runtime has no room for another stream; on
  success the new stream is written through the pointer argument, which is the
  second component of the result.
\<close>

definition cudaStreamCreate :: "runtime \<Rightarrow> status \<times> cudaStream_t option \<times> runtime" where
  "cudaStreamCreate rt =
     (if length (live_streams rt) < max_streams rt
      then (Success, Some (next_stream rt),
            logged StreamCreate
              (rt\<lparr>next_stream := next_stream rt + 1,
                  live_streams := live_streams rt @ [next_stream rt],
                  pending := (pending rt)(next_stream rt := 0)\<rparr>))
      else (Failed, None, logged StreamCreate rt))"

definition cublasCreate :: "runtime \<Rightarrow> status \<times> cublasHandle_t option \<times> runtime" where
  "cublasCreate rt =
     (if length (live_handles rt) < max_handles rt
      then (Success, Some (next_handle rt),
            logged BlasCreate
              (rt\<lparr>next_handle := next_handle rt + 1,
                  live_handles := live_handles rt @ [next_handle rt],
                  bound := (bound rt)(next_handle rt := None)\<rparr>))
      else (Failed, None, logged BlasCreate rt))"

text \<open>\<^verbatim>\<open>cublasSetStream\<close>: fails on a handle that is not live.\<close>

definition cublasSetStream :: "cublasHandle_t \<Rightarrow> cudaStream_t \<Rightarrow> runtime \<Rightarrow> status \<times> runtime" where
  "cublasSetStream h s rt =
     (if h \<in> set (live_handles rt)
      then (Success, logged (BlasSetStream h s) (rt\<lparr>bound := (bound rt)(h \<mapsto> s)\<rparr>))
      else (Failed, logged (BlasSetStream h s) rt))"

text \<open>
  \<^verbatim>\<open>cudaStreamSynchronize\<close>: returns when the work submitted to the stream has
  completed; fails on a stream that is not live.
\<close>

definition cudaStreamSynchronize :: "cudaStream_t \<Rightarrow> runtime \<Rightarrow> status \<times> runtime" where
  "cudaStreamSynchronize s rt =
     (if s \<in> set (live_streams rt)
      then (Success, logged (StreamSynchronize s) (rt\<lparr>pending := (pending rt)(s := 0)\<rparr>))
      else (Failed, logged (StreamSynchronize s) rt))"

definition cudaStreamDestroy :: "cudaStream_t \<Rightarrow> runtime \<Rightarrow> status \<times> runtime" where
  "cudaStreamDestroy s rt =
     (if s \<in> set (live_streams rt)
      then (Success, logged (StreamDestroy s) (rt\<lparr>live_streams := removeAll s (live_streams rt)\<rparr>))
      else (Failed, logged (StreamDestroy s) rt))"

definition cublasDestroy :: "cublasHandle_t \<Rightarrow> runtime \<Rightarrow> status \<times> runtime" where
  "cublasDestroy h rt =
     (if h \<in> set (live_handles rt)
      then (Success, logged (BlasDestroy h) (rt\<lparr>live_handles := removeAll h (live_handles rt)\<rparr>))
      else (Failed, logged (BlasDestroy h) rt))"

text \<open>
  The host framework's ambient accessors, \<^verbatim>\<open>c10::cuda::getCurrentCUDAStream().stream()\<close>
  and \<^verbatim>\<open>at::cuda::getCurrentCUDABlasHandle()\<close>.
\<close>

definition getCurrentCUDAStream :: "runtime \<Rightarrow> cudaStream_t" where
  "getCurrentCUDAStream rt = current_stream rt"

definition getCurrentCUDABlasHandle :: "runtime \<Rightarrow> cublasHandle_t" where
  "getCurrentCUDABlasHandle rt = current_blas_handle rt"

text \<open>A caller submits one unit of work to a stream (a kernel launch).\<close>

definition launch :: "cudaStream_t \<Rightarrow> runtime \<Rightarrow> runtime" where
  "launch s rt = rt\<lparr>pending := (pending rt)(s := pending rt s + 1)\<rparr>"


section \<open>The stream manager object\<close>

text \<open>
  The members \<^verbatim>\<open>streams\<close> and \<^verbatim>\<open>handles\<close> are pointers to heap arrays. A pointer is
  either not usable (never assigned, or its array deleted) or points to an array of
  cells; a cell of a fresh array holds no value until it is written.
\<close>

datatype 'a array_ptr = Invalid | Array "'a option list"

datatype error =
    CudaCheckFailed
  | InvalidPointer
  | OutOfBounds
  | Indeterminate

record CudaStreamManager =
  device :: int
  use_default :: bool
  streams :: "cudaStream_t array_ptr"
  handles :: "cublasHandle_t array_ptr"

definition SMGR_N_STREAMS :: nat where
  "SMGR_N_STREAMS = 16"

text \<open>Reading \<^verbatim>\<open>a[i]\<close> and writing \<^verbatim>\<open>a[i] = v\<close>, with what can go wrong written out.\<close>

fun load :: "'a array_ptr \<Rightarrow> nat \<Rightarrow> error + 'a" where
  "load Invalid i = Inl InvalidPointer"
| "load (Array cs) i =
     (if i < length cs
      then (case cs ! i of None \<Rightarrow> Inl Indeterminate | Some v \<Rightarrow> Inr v)
      else Inl OutOfBounds)"

fun store :: "'a array_ptr \<Rightarrow> nat \<Rightarrow> 'a \<Rightarrow> error + 'a array_ptr" where
  "store Invalid i v = Inl InvalidPointer"
| "store (Array cs) i v =
     (if i < length cs then Inr (Array (cs[i := Some v])) else Inl OutOfBounds)"

text \<open>
  A member function runs on the object and the runtime, and returns its result with
  both. An error is a value: the state that comes with it is the state at the point
  where the function stopped.
\<close>

type_synonym state = "CudaStreamManager \<times> runtime"

text \<open>
  \<^verbatim>\<open>size_t\<close> is a 64-bit unsigned integer and \<^verbatim>\<open>int\<close> a 32-bit signed one.
\<close>

type_synonym size_t = "64 word"
type_synonym c_int = "32 word"

definition stream :: "size_t \<Rightarrow> state \<Rightarrow> (error + cudaStream_t) \<times> state" where
  "stream idx st =
     (case st of (this, rt) \<Rightarrow>
        if use_default this then (Inr (getCurrentCUDAStream rt), this, rt)
        else (load (streams this) (unat (idx mod of_nat SMGR_N_STREAMS)), this, rt))"

definition handle :: "size_t \<Rightarrow> state \<Rightarrow> (error + cublasHandle_t) \<times> state" where
  "handle idx st =
     (case st of (this, rt) \<Rightarrow>
        if use_default this then (Inr (getCurrentCUDABlasHandle rt), this, rt)
        else (load (handles this) (unat (idx mod of_nat SMGR_N_STREAMS)), this, rt))"

text \<open>
  The loop of \<^verbatim>\<open>sync\<close>. The counter \<open>i\<close> starts at 0 and stops at 16 at the latest, so
  it is a natural number here; the comparison \<^verbatim>\<open>i < idx\<close> is the signed one.
  The status that \<^verbatim>\<open>cudaStreamSynchronize\<close> returns is dropped, as in the source.
\<close>

function sync_loop :: "c_int \<Rightarrow> nat \<Rightarrow> state \<Rightarrow> (error + unit) \<times> state" where
  "sync_loop idx i (this, rt) =
     (if int i < sint idx \<and> i < SMGR_N_STREAMS
      then (case load (streams this) i of
              Inl e \<Rightarrow> (Inl e, this, rt)
            | Inr s \<Rightarrow> sync_loop idx (i + 1) (this, snd (cudaStreamSynchronize s rt)))
      else (Inr (), this, rt))"
  by pat_completeness auto
termination
  by (relation "measure (\<lambda>(idx, i, st). SMGR_N_STREAMS - i)") auto

declare sync_loop.simps [simp del]

definition sync :: "c_int \<Rightarrow> state \<Rightarrow> (error + unit) \<times> state" where
  "sync idx st =
     (case st of (this, rt) \<Rightarrow>
        if use_default this then (Inr (), this, rt)
        else sync_loop idx 0 (this, rt))"


text \<open>
  Modelled from the spec: the macro \<^verbatim>\<open>checkCudaErrors\<close> comes from
  \<^verbatim>\<open>fastermoe/status.h\<close>, which is not among the sources. The specification says
  that a failure of the accelerator runtime or of the math library makes the operation
  fail (\<open>DeviceSetupError\<close> in \<^verbatim>\<open>setup\<close>); so a status other than success stops the
  enclosing function with the error \<open>CudaCheckFailed\<close>.
\<close>

definition checkCudaErrors :: "status \<Rightarrow> error option" where
  "checkCudaErrors r = (if r = Success then None else Some CudaCheckFailed)"

text \<open>
  A runtime function that returns an object through a pointer \<^verbatim>\<open>a + i\<close> writes the
  cell \<^verbatim>\<open>a[i]\<close> when it succeeds and leaves it alone when it fails.
\<close>

definition out_param :: "'a array_ptr \<Rightarrow> nat \<Rightarrow> 'a option \<Rightarrow> error + 'a array_ptr" where
  "out_param a i out = (case out of None \<Rightarrow> Inr a | Some v \<Rightarrow> store a i v)"

text \<open>
  One iteration of the loop of \<^verbatim>\<open>setup\<close>: create the stream, create the handle, bind
  the handle to the stream. The first two calls are checked; the status of
  \<^verbatim>\<open>cublasSetStream\<close> is dropped.
\<close>

definition setup_body :: "nat \<Rightarrow> state \<Rightarrow> (error + unit) \<times> state" where
  "setup_body i st =
     (case st of (this, rt) \<Rightarrow>
      (case cudaStreamCreate rt of (r1, out1, rt1) \<Rightarrow>
       (case out_param (streams this) i out1 of
          Inl e \<Rightarrow> (Inl e, this, rt1)
        | Inr ss \<Rightarrow>
           (case checkCudaErrors r1 of
              Some e \<Rightarrow> (Inl e, this\<lparr>streams := ss\<rparr>, rt1)
            | None \<Rightarrow>
               (case cublasCreate rt1 of (r2, out2, rt2) \<Rightarrow>
                (case out_param (handles this) i out2 of
                   Inl e \<Rightarrow> (Inl e, this\<lparr>streams := ss\<rparr>, rt2)
                 | Inr hs \<Rightarrow>
                    (case checkCudaErrors r2 of
                       Some e \<Rightarrow> (Inl e, this\<lparr>streams := ss, handles := hs\<rparr>, rt2)
                     | None \<Rightarrow>
                        (case load hs i of
                           Inl e \<Rightarrow> (Inl e, this\<lparr>streams := ss, handles := hs\<rparr>, rt2)
                         | Inr h \<Rightarrow>
                            (case load ss i of
                               Inl e \<Rightarrow> (Inl e, this\<lparr>streams := ss, handles := hs\<rparr>, rt2)
                             | Inr s \<Rightarrow>
                                (Inr (), this\<lparr>streams := ss, handles := hs\<rparr>,
                                 snd (cublasSetStream h s rt2)))))))))))"

function setup_loop :: "nat \<Rightarrow> state \<Rightarrow> (error + unit) \<times> state" where
  "setup_loop i st =
     (if i < SMGR_N_STREAMS
      then (case setup_body i st of
              (Inl e, st') \<Rightarrow> (Inl e, st')
            | (Inr u, st') \<Rightarrow> setup_loop (i + 1) st')
      else (Inr (), st))"
  by pat_completeness auto
termination
  by (relation "measure (\<lambda>(i, st). SMGR_N_STREAMS - i)") auto

declare setup_loop.simps [simp del]

text \<open>
  \<^verbatim>\<open>setup\<close> (the name is a keyword of the prover, hence the suffix). The line \<^verbatim>\<open>this->ncclgood = 0\<close> exists only in builds with
  \<^verbatim>\<open>FMOE_USE_NCCL\<close> and is left out. The two \<^verbatim>\<open>new\<close> expressions give arrays of 16
  cells that hold no value yet.
\<close>

definition setup_smgr :: "int \<Rightarrow> state \<Rightarrow> (error + unit) \<times> state" where
  "setup_smgr dev st =
     (case st of (this, rt) \<Rightarrow>
      (case cudaSetDevice dev rt of (r, rt1) \<Rightarrow>
       (case checkCudaErrors r of
          Some e \<Rightarrow> (Inl e, this\<lparr>device := dev\<rparr>, rt1)
        | None \<Rightarrow>
           setup_loop 0
             (this\<lparr>device := dev,
                   streams := Array (replicate SMGR_N_STREAMS None),
                   handles := Array (replicate SMGR_N_STREAMS None)\<rparr>, rt1))))"

text \<open>One iteration of the loop of \<^verbatim>\<open>destroy\<close>; both calls are checked.\<close>

definition destroy_body :: "nat \<Rightarrow> state \<Rightarrow> (error + unit) \<times> state" where
  "destroy_body i st =
     (case st of (this, rt) \<Rightarrow>
      (case load (streams this) i of
         Inl e \<Rightarrow> (Inl e, this, rt)
       | Inr s \<Rightarrow>
          (case cudaStreamDestroy s rt of (r1, rt1) \<Rightarrow>
           (case checkCudaErrors r1 of
              Some e \<Rightarrow> (Inl e, this, rt1)
            | None \<Rightarrow>
               (case load (handles this) i of
                  Inl e \<Rightarrow> (Inl e, this, rt1)
                | Inr h \<Rightarrow>
                   (case cublasDestroy h rt1 of (r2, rt2) \<Rightarrow>
                    (case checkCudaErrors r2 of
                       Some e \<Rightarrow> (Inl e, this, rt2)
                     | None \<Rightarrow> (Inr (), this, rt2))))))))"

function destroy_loop :: "nat \<Rightarrow> state \<Rightarrow> (error + unit) \<times> state" where
  "destroy_loop i st =
     (if i < SMGR_N_STREAMS
      then (case destroy_body i st of
              (Inl e, st') \<Rightarrow> (Inl e, st')
            | (Inr u, st') \<Rightarrow> destroy_loop (i + 1) st')
      else (Inr (), st))"
  by pat_completeness auto
termination
  by (relation "measure (\<lambda>(i, st). SMGR_N_STREAMS - i)") auto

declare destroy_loop.simps [simp del]

text \<open>\<^verbatim>\<open>destroy\<close>: after the loop, both arrays are deleted and the pointers dangle.\<close>

definition destroy :: "state \<Rightarrow> (error + unit) \<times> state" where
  "destroy st =
     (case destroy_loop 0 st of
        (Inl e, st') \<Rightarrow> (Inl e, st')
      | (Inr u, this, rt) \<Rightarrow> (Inr (), this\<lparr>streams := Invalid, handles := Invalid\<rparr>, rt))"


section \<open>What callers do with a manager between setup and destroy\<close>

text \<open>
  Callers read a stream or a handle, submit work to the stream they got, ask for a
  fence, or flip the public field \<^verbatim>\<open>use_default\<close>. A manager is live from the return
  of \<^verbatim>\<open>setup\<close> through any sequence of these steps.
\<close>

datatype client_op =
    CallStream size_t
  | CallHandle size_t
  | CallSync c_int
  | Submit size_t
  | SetUseDefault bool

fun client_step :: "client_op \<Rightarrow> state \<Rightarrow> state" where
  "client_step (CallStream idx) st = snd (stream idx st)"
| "client_step (CallHandle idx) st = snd (handle idx st)"
| "client_step (CallSync k) st = snd (sync k st)"
| "client_step (Submit idx) st =
     (case stream idx st of
        (Inl e, st') \<Rightarrow> st'
      | (Inr s, this, rt) \<Rightarrow> (this, launch s rt))"
| "client_step (SetUseDefault b) st =
     (case st of (this, rt) \<Rightarrow> (this\<lparr>use_default := b\<rparr>, rt))"

definition client_run :: "client_op list \<Rightarrow> state \<Rightarrow> state" where
  "client_run ops st = fold client_step ops st"



section \<open>The registry and \<^verbatim>\<open>getCudaStreamManager\<close>\<close>

text \<open>
  Modelled from the spec: the constructor \<^verbatim>\<open>CudaStreamManager(device)\<close> is declared in
  \<^verbatim>\<open>stream_manager.h\<close>, which is not among the sources. The specification says that a
  pool is created on the first lookup of its device, "which triggers setup", and that
  \<^verbatim>\<open>use_default\<close> is false by default. The array pointers of the new object are not
  assigned before \<^verbatim>\<open>setup\<close> runs.
\<close>

definition blank_manager :: "int \<Rightarrow> CudaStreamManager" where
  "blank_manager dev =
     \<lparr>device = dev, use_default = False, streams = Invalid, handles = Invalid\<rparr>"

definition new_CudaStreamManager :: "int \<Rightarrow> runtime \<Rightarrow> (error + unit) \<times> state" where
  "new_CudaStreamManager dev rt = setup_smgr dev (blank_manager dev, rt)"

text \<open>
  The global \<^verbatim>\<open>smgrs\<close> is a \<^verbatim>\<open>std::unordered_map\<close>, and the standard library does not
  protect it against concurrent use. A call that modifies the container
  (\<^verbatim>\<open>emplace\<close>) must not overlap any other call on it from another thread; calls that
  only read (\<^verbatim>\<open>find\<close>) may overlap each other. An insertion after which the table has
  more entries than buckets rehashes it, and a rehash invalidates every iterator
  obtained before. A program that does either, or that uses an invalidated iterator,
  has undefined behaviour; the model records the fault and stops there.
\<close>

datatype fault = DataRace | InvalidIterator

text \<open>
  Where a thread stands inside \<^verbatim>\<open>getCudaStreamManager\<close>: the constructors are the
  source lines the thread is about to run, with the value of \<^verbatim>\<open>device\<close> and of
  \<^verbatim>\<open>smgr\<close> or \<^verbatim>\<open>it\<close>. \<open>In68\<close> and \<open>In74\<close> are a thread inside the call of \<^verbatim>\<open>find\<close> at line
  68 and inside the call of \<^verbatim>\<open>emplace\<close> at line 74. An iterator that is not \<^verbatim>\<open>end()\<close>
  points to the entry of its key; it is kept as the number of rehashes the table had
  undergone when \<^verbatim>\<open>find\<close> returned it.
\<close>

datatype frame =
    Outside
  | Line68 int
  | In68 int
  | Line70 int
  | Line71 int
  | Line73 int
  | Line74 int nat
  | In74 int nat
  | Line75 int nat
  | Line79 int nat
  | Line82 int nat
  | Stopped error

text \<open>
  The process: the managers allocated with \<^verbatim>\<open>new\<close>, by address; the global map
  \<^verbatim>\<open>smgrs\<close> with its number of entries, its number of buckets and the number of
  rehashes so far; how many threads are inside a \<^verbatim>\<open>find\<close> without the lock and inside
  an \<^verbatim>\<open>emplace\<close>; the global mutex \<^verbatim>\<open>smgr_mtx\<close> with its owner; the runtime; the frame
  of every thread; a log of every pool that was constructed and of every value that
  a call returned; and the fault, once the behaviour is undefined.
\<close>

record process =
  objects :: "nat \<Rightarrow> CudaStreamManager option"
  next_object :: nat
  smgrs :: "int \<Rightarrow> nat option"
  entries :: nat
  bucket_count :: nat
  rehashes :: nat
  readers :: nat
  writers :: nat
  smgr_mtx :: "nat option"
  gpu :: runtime
  threads :: "nat \<Rightarrow> frame"
  constructed :: "(int \<times> nat) list"
  returned :: "(nat \<times> int \<times> nat) list"
  undefined_behaviour :: "fault option"

text \<open>
  \<^verbatim>\<open>std::unordered_map::emplace\<close> inserts only when the key is absent. The maximum
  load factor is 1, its default; by how much the table grows in a rehash is up to
  the library, and the model doubles it.
\<close>

definition emplace :: "int \<Rightarrow> nat \<Rightarrow> process \<Rightarrow> process" where
  "emplace k v p =
     (if smgrs p k = None
      then (if bucket_count p < entries p + 1
            then p\<lparr>smgrs := (smgrs p)(k \<mapsto> v), entries := entries p + 1,
                   bucket_count := 2 * bucket_count p + 1, rehashes := rehashes p + 1\<rparr>
            else p\<lparr>smgrs := (smgrs p)(k \<mapsto> v), entries := entries p + 1\<rparr>)
      else p)"

definition goto :: "nat \<Rightarrow> frame \<Rightarrow> process \<Rightarrow> process" where
  "goto t f p = p\<lparr>threads := (threads p)(t := f)\<rparr>"

text \<open>
  One step of thread \<open>t\<close>.

  Line 68: the thread enters \<^verbatim>\<open>find\<close> without the lock; if another thread is inside
  \<^verbatim>\<open>emplace\<close>, the two calls overlap. When \<^verbatim>\<open>find\<close> returns, line 69 sends the thread
  to the lock on a miss and to line 82 with the iterator on a hit.
  Line 70: a thread that asks for a mutex that is taken does not move.
  Line 71: the second \<^verbatim>\<open>find\<close> runs under the mutex, as does every \<^verbatim>\<open>emplace\<close>, so no
  modification can overlap it; it is one step.
  Line 73: the construction runs under the mutex and is one step. When it fails, the
  thread leaves the function through the error, and no statement on that path
  unlocks the mutex.
  Line 74: the thread enters \<^verbatim>\<open>emplace\<close>; if another thread is inside the \<^verbatim>\<open>find\<close> of
  line 68, the two calls overlap. When \<^verbatim>\<open>emplace\<close> returns, the entry is in the map.
  Lines 75 to 77: unlock and return \<^verbatim>\<open>smgr\<close>. Line 79: unlock.
  Line 82: \<^verbatim>\<open>it->second\<close> reads the entry through the iterator, after the unlock.
\<close>

definition thread_step :: "nat \<Rightarrow> process \<Rightarrow> process" where
  "thread_step t p =
     (case threads p t of
        Outside \<Rightarrow> p
      | Line68 dev \<Rightarrow>
          (if 0 < writers p then p\<lparr>undefined_behaviour := Some DataRace\<rparr>
           else goto t (In68 dev) (p\<lparr>readers := readers p + 1\<rparr>))
      | In68 dev \<Rightarrow>
          (case smgrs p dev of
             None \<Rightarrow> goto t (Line70 dev) (p\<lparr>readers := readers p - 1\<rparr>)
           | Some a \<Rightarrow> goto t (Line82 dev (rehashes p)) (p\<lparr>readers := readers p - 1\<rparr>))
      | Line70 dev \<Rightarrow>
          (case smgr_mtx p of
             None \<Rightarrow> goto t (Line71 dev) (p\<lparr>smgr_mtx := Some t\<rparr>)
           | Some owner \<Rightarrow> p)
      | Line71 dev \<Rightarrow>
          (case smgrs p dev of
             None \<Rightarrow> goto t (Line73 dev) p
           | Some a \<Rightarrow> goto t (Line79 dev (rehashes p)) p)
      | Line73 dev \<Rightarrow>
          (case new_CudaStreamManager dev (gpu p) of
             (Inl e, this, rt) \<Rightarrow> goto t (Stopped e) (p\<lparr>gpu := rt\<rparr>)
           | (Inr u, this, rt) \<Rightarrow>
               goto t (Line74 dev (next_object p))
                 (p\<lparr>objects := (objects p)(next_object p \<mapsto> this),
                    next_object := next_object p + 1,
                    gpu := rt,
                    constructed := constructed p @ [(dev, next_object p)]\<rparr>))
      | Line74 dev smgr \<Rightarrow>
          (if 0 < readers p then p\<lparr>undefined_behaviour := Some DataRace\<rparr>
           else goto t (In74 dev smgr) (p\<lparr>writers := writers p + 1\<rparr>))
      | In74 dev smgr \<Rightarrow>
          goto t (Line75 dev smgr) (emplace dev smgr (p\<lparr>writers := writers p - 1\<rparr>))
      | Line75 dev smgr \<Rightarrow>
          goto t Outside
            (p\<lparr>smgr_mtx := None, returned := returned p @ [(t, dev, smgr)]\<rparr>)
      | Line79 dev it \<Rightarrow> goto t (Line82 dev it) (p\<lparr>smgr_mtx := None\<rparr>)
      | Line82 dev it \<Rightarrow>
          (if it \<noteq> rehashes p then p\<lparr>undefined_behaviour := Some InvalidIterator\<rparr>
           else (case smgrs p dev of
                   None \<Rightarrow> p\<lparr>undefined_behaviour := Some InvalidIterator\<rparr>
                 | Some a \<Rightarrow>
                     goto t Outside (p\<lparr>returned := returned p @ [(t, dev, a)]\<rparr>)))
      | Stopped e \<Rightarrow> p)"

text \<open>A member function called through a pointer to a manager.\<close>

definition invoke ::
  "nat \<Rightarrow> (state \<Rightarrow> (error + 'a) \<times> state) \<Rightarrow> process \<Rightarrow> (error + 'a) \<times> process" where
  "invoke a m p =
     (case objects p a of
        None \<Rightarrow> (Inl InvalidPointer, p)
      | Some this \<Rightarrow>
          (case m (this, gpu p) of
             (r, this', rt') \<Rightarrow> (r, p\<lparr>objects := (objects p)(a \<mapsto> this'), gpu := rt'\<rparr>)))"

text \<open>
  What can happen in the process: a thread that is outside the function calls it, a
  thread inside it runs its next step, or a caller uses a manager it holds. Once
  the behaviour is undefined, nothing more is said about the process.
\<close>

datatype action =
    Enter nat int
  | Step nat
  | Use nat client_op

fun perform :: "action \<Rightarrow> process \<Rightarrow> process" where
  "perform (Enter t dev) p = (if threads p t = Outside then goto t (Line68 dev) p else p)"
| "perform (Step t) p = thread_step t p"
| "perform (Use a c) p =
     (case objects p a of
        None \<Rightarrow> p
      | Some this \<Rightarrow>
          (case client_step c (this, gpu p) of
             (this', rt') \<Rightarrow> p\<lparr>objects := (objects p)(a \<mapsto> this'), gpu := rt'\<rparr>))"

definition act :: "action \<Rightarrow> process \<Rightarrow> process" where
  "act x p = (case undefined_behaviour p of None \<Rightarrow> perform x p | Some f \<Rightarrow> p)"

definition exec :: "action list \<Rightarrow> process \<Rightarrow> process" where
  "exec as p = fold act as p"

text \<open>
  The process at start: no manager, an empty map with one bucket, a free mutex, every
  thread outside.
\<close>

definition boot :: "runtime \<Rightarrow> process" where
  "boot rt =
     \<lparr>objects = (\<lambda>a. None), next_object = 1, smgrs = (\<lambda>d. None), entries = 0,
      bucket_count = 1, rehashes = 0, readers = 0, writers = 0, smgr_mtx = None,
      gpu = rt, threads = (\<lambda>t. Outside), constructed = [], returned = [],
      undefined_behaviour = None\<rparr>"


section \<open>Concrete states used in the examples\<close>

text \<open>
  A machine with two devices and room for 64 streams and 64 handles; the host
  framework's ambient stream and handle are number 0, bound to each other.
\<close>

definition demo_rt :: runtime where
  "demo_rt =
     \<lparr>device_count = 2, current_device = 0, max_streams = 64, max_handles = 64,
      next_stream = 1, next_handle = 1, live_streams = [0], live_handles = [0],
      bound = (\<lambda>h. if h = 0 then Some 0 else None), pending = (\<lambda>s. 0),
      current_stream = 0, current_blas_handle = 0, calls = []\<rparr>"

definition demo_live :: state where
  "demo_live = snd (new_CudaStreamManager 1 demo_rt)"


text \<open>
  Three runs of the process. In the first, one thread asks for device 1 twice. In
  the second, two threads ask for device 1 for the first time: thread 1 misses,
  takes the mutex, constructs the pool and is inside \<^verbatim>\<open>emplace\<close> when thread 0 runs
  its first lookup. In the third, thread 0 creates the pool of device 0, asks for it
  again and holds the iterator of line 68 while thread 1 creates the pool of
  device 1; then thread 0 runs line 82.
\<close>

definition one_thread_twice :: "action list" where
  "one_thread_twice =
     Enter 0 1 # replicate 8 (Step 0) @ Enter 0 1 # replicate 3 (Step 0)"

definition first_touch_race :: "action list" where
  "first_touch_race = [Enter 0 1, Enter 1 1] @ replicate 6 (Step 1) @ [Step 0]"

definition stale_iterator :: "action list" where
  "stale_iterator =
     Enter 0 0 # replicate 8 (Step 0) @ Enter 0 0 # replicate 2 (Step 0) @
     Enter 1 1 # replicate 8 (Step 1) @ [Step 0]"


section \<open>Predicates used in the proofs\<close>

text \<open>The state of the loop of \<^verbatim>\<open>setup\<close> before iteration \<open>j\<close>, started on runtime \<open>r0\<close>.\<close>

definition setup_inv :: "runtime \<Rightarrow> nat \<Rightarrow> state \<Rightarrow> bool" where
  "setup_inv r0 j st =
     (case st of (this, rt) \<Rightarrow>
        (\<exists>cs ds. streams this = Array cs \<and> handles this = Array ds \<and>
           length cs = SMGR_N_STREAMS \<and> length ds = SMGR_N_STREAMS \<and>
           take j cs = map Some [next_stream r0..<next_stream r0 + j] \<and>
           take j ds = map Some [next_handle r0..<next_handle r0 + j]) \<and>
        next_stream rt = next_stream r0 + j \<and>
        next_handle rt = next_handle r0 + j \<and>
        live_streams rt = live_streams r0 @ [next_stream r0..<next_stream r0 + j] \<and>
        live_handles rt = live_handles r0 @ [next_handle r0..<next_handle r0 + j] \<and>
        (\<forall>k<j. bound rt (next_handle r0 + k) = Some (next_stream r0 + k)) \<and>
        calls rt = calls r0 @ concat (map (\<lambda>k. [StreamCreate, BlasCreate,
                      BlasSetStream (next_handle r0 + k) (next_stream r0 + k)]) [0..<j]) \<and>
        max_streams rt = max_streams r0 \<and> max_handles rt = max_handles r0)"

text \<open>A manager whose arrays hold the streams \<open>ss\<close> and the handles \<open>hs\<close>, all live and paired.\<close>

definition pool_ok :: "cudaStream_t list \<Rightarrow> cublasHandle_t list \<Rightarrow> state \<Rightarrow> bool" where
  "pool_ok ss hs st =
     (case st of (this, rt) \<Rightarrow>
        streams this = Array (map Some ss) \<and> handles this = Array (map Some hs) \<and>
        length ss = SMGR_N_STREAMS \<and> length hs = SMGR_N_STREAMS \<and>
        distinct ss \<and> distinct hs \<and>
        set ss \<subseteq> set (live_streams rt) \<and> set hs \<subseteq> set (live_handles rt) \<and>
        (\<forall>k<SMGR_N_STREAMS. bound rt (hs ! k) = Some (ss ! k)))"

text \<open>The runtime after the streams \<open>xs\<close> have been waited on, one after the other.\<close>

definition synced :: "cudaStream_t list \<Rightarrow> runtime \<Rightarrow> runtime" where
  "synced xs rt =
     rt\<lparr>pending := (\<lambda>s. if s \<in> set xs then 0 else pending rt s),
        calls := calls rt @ map StreamSynchronize xs\<rparr>"

text \<open>The runtime after the pairs \<open>xs\<close> of a stream and a handle have been destroyed in turn.\<close>

fun released :: "(cudaStream_t \<times> cublasHandle_t) list \<Rightarrow> runtime \<Rightarrow> runtime" where
  "released [] rt = rt"
| "released ((s, h) # xs) rt = released xs (snd (cublasDestroy h (snd (cudaStreamDestroy s rt))))"

fun is_release :: "call \<Rightarrow> bool" where
  "is_release (StreamDestroy s) = True"
| "is_release (BlasDestroy h) = True"
| "is_release c = False"


section \<open>The loop of \<^verbatim>\<open>setup\<close>\<close>

lemma setup_loop_success_rule:
  assumes step: "\<And>j s s'. j < SMGR_N_STREAMS \<Longrightarrow> P j s \<Longrightarrow> setup_body j s = (Inr (), s') \<Longrightarrow> P (j + 1) s'"
  shows "setup_loop i st = (Inr (), st') \<Longrightarrow> i \<le> SMGR_N_STREAMS \<Longrightarrow> P i st \<Longrightarrow> P SMGR_N_STREAMS st'"
proof (induction i st rule: setup_loop.induct)
  case (1 i st)
  show ?case
  proof (cases "i < SMGR_N_STREAMS")
    case False
    with "1.prems" show ?thesis by (simp add: setup_loop.simps [of i st])
  next
    case True
    obtain r s1 where b: "setup_body i st = (r, s1)" by (cases "setup_body i st")
    show ?thesis
    proof (cases r)
      case (Inl e)
      with True b "1.prems"(1) show ?thesis by (simp add: setup_loop.simps [of i st])
    next
      case (Inr u)
      with True b "1.prems"(1) have l: "setup_loop (i + 1) s1 = (Inr (), st')"
        by (simp add: setup_loop.simps [of i st])
      have "P (i + 1) s1" using step [OF True "1.prems"(3)] b Inr by simp
      moreover from True have "i + 1 \<le> SMGR_N_STREAMS" by simp
      ultimately show ?thesis using "1.IH" [OF True b [symmetric] Inr l] by blast
    qed
  qed
qed

lemma setup_body_inv:
  assumes "j < SMGR_N_STREAMS" "setup_inv r0 j s" "setup_body j s = (Inr (), s')"
  shows "setup_inv r0 (j + 1) s'"
  using assms
  apply (cases s)
  apply (clarsimp simp: setup_inv_def setup_body_def cudaStreamCreate_def cublasCreate_def
     checkCudaErrors_def out_param_def cublasSetStream_def logged_def
      split: if_splits sum.splits option.splits)
  apply (auto simp: take_Suc_conv_app_nth less_Suc_eq)
  done


lemma setup_loop_failure_rule:
  assumes step: "\<And>j s s'. j < SMGR_N_STREAMS \<Longrightarrow> P j s \<Longrightarrow> setup_body j s = (Inr (), s') \<Longrightarrow> P (j + 1) s'"
  shows "setup_loop i st = (Inl e, st') \<Longrightarrow> P i st \<Longrightarrow>
     \<exists>j s. j < SMGR_N_STREAMS \<and> P j s \<and> setup_body j s = (Inl e, st')"
proof (induction i st rule: setup_loop.induct)
  case (1 i st)
  show ?case
  proof (cases "i < SMGR_N_STREAMS")
    case False
    with "1.prems" show ?thesis by (simp add: setup_loop.simps [of i st])
  next
    case True
    obtain r s1 where b: "setup_body i st = (r, s1)" by (cases "setup_body i st")
    show ?thesis
    proof (cases r)
      case (Inl e')
      with True b "1.prems"(1) have "setup_body i st = (Inl e, st')"
        by (simp add: setup_loop.simps [of i st])
      with True "1.prems"(2) show ?thesis by blast
    next
      case (Inr u)
      with True b "1.prems"(1) have l: "setup_loop (i + 1) s1 = (Inl e, st')"
        by (simp add: setup_loop.simps [of i st])
      have "P (i + 1) s1" using step [OF True "1.prems"(2)] b Inr by simp
      then show ?thesis using "1.IH" [OF True b [symmetric] Inr l] by blast
    qed
  qed
qed

lemma setup_inv_start:
  "setup_inv rt 0 (this\<lparr>device := dev, streams := Array (replicate SMGR_N_STREAMS None),
        handles := Array (replicate SMGR_N_STREAMS None)\<rparr>, rt)"
  by (simp add: setup_inv_def)

lemma setup_success:
  assumes "setup_smgr dev (this, rt) = (Inr (), st')"
  shows "0 \<le> dev \<and> dev < int (device_count rt) \<and>
         setup_inv (logged (SetDevice dev) (rt\<lparr>current_device := dev\<rparr>)) SMGR_N_STREAMS st'"
proof -
  let ?r1 = "logged (SetDevice dev) (rt\<lparr>current_device := dev\<rparr>)"
  let ?t1 = "this\<lparr>device := dev, streams := Array (replicate SMGR_N_STREAMS None),
        handles := Array (replicate SMGR_N_STREAMS None)\<rparr>"
  from assms have ok: "0 \<le> dev \<and> dev < int (device_count rt)"
    by (auto simp: setup_smgr_def cudaSetDevice_def checkCudaErrors_def split: if_splits)
  with assms have l: "setup_loop 0 (?t1, ?r1) = (Inr (), st')"
    by (simp add: setup_smgr_def cudaSetDevice_def checkCudaErrors_def)
  have "setup_inv ?r1 SMGR_N_STREAMS st'"
  proof (rule setup_loop_success_rule [where P = "setup_inv ?r1", OF _ l])
    show "setup_inv ?r1 0 (?t1, ?r1)" by (rule setup_inv_start)
  qed (simp_all only: setup_body_inv le0)
  with ok show ?thesis by simp
qed

lemma setup_pool_ok:
  assumes "setup_smgr dev (this, rt) = (Inr (), st')"
  shows "pool_ok [next_stream rt..<next_stream rt + SMGR_N_STREAMS]
           [next_handle rt..<next_handle rt + SMGR_N_STREAMS] st'"
proof -
  obtain this' rt' where st': "st' = (this', rt')" by (cases st')
  from setup_success [OF assms]
  have inv: "setup_inv (logged (SetDevice dev) (rt\<lparr>current_device := dev\<rparr>)) SMGR_N_STREAMS (this', rt')"
    by (simp add: st')
  then obtain cs ds where a: "streams this' = Array cs" "handles this' = Array ds"
     "length cs = SMGR_N_STREAMS" "length ds = SMGR_N_STREAMS"
     "take SMGR_N_STREAMS cs = map Some [next_stream rt..<next_stream rt + SMGR_N_STREAMS]"
     "take SMGR_N_STREAMS ds = map Some [next_handle rt..<next_handle rt + SMGR_N_STREAMS]"
    by (auto simp: setup_inv_def logged_def)
  from a have cs: "cs = map Some [next_stream rt..<next_stream rt + SMGR_N_STREAMS]"
    and ds: "ds = map Some [next_handle rt..<next_handle rt + SMGR_N_STREAMS]" by simp_all
  from inv have l: "live_streams rt' = live_streams rt @ [next_stream rt..<next_stream rt + SMGR_N_STREAMS]"
    "live_handles rt' = live_handles rt @ [next_handle rt..<next_handle rt + SMGR_N_STREAMS]"
    "\<forall>k<SMGR_N_STREAMS. bound rt' (next_handle rt + k) = Some (next_stream rt + k)"
    by (auto simp: setup_inv_def logged_def)
  show ?thesis
    using a(1,2) cs ds l by (simp add: pool_ok_def st')
qed


section \<open>The loop of \<^verbatim>\<open>sync\<close> and the steps of callers\<close>

lemma synced_Nil: "synced [] rt = rt"
  by (simp add: synced_def)

lemma synced_Cons:
  "s \<in> set (live_streams rt) \<Longrightarrow> synced xs (snd (cudaStreamSynchronize s rt)) = synced (s # xs) rt"
  by (auto simp: synced_def cudaStreamSynchronize_def logged_def fun_eq_iff)

lemma sync_loop_live:
  assumes "streams this = Array (map Some ss)" "length ss = SMGR_N_STREAMS"
  shows "set ss \<subseteq> set (live_streams rt) \<Longrightarrow> i \<le> SMGR_N_STREAMS \<Longrightarrow>
         sync_loop idx i (this, rt) =
           (Inr (), this, synced (drop i (take (nat (sint idx)) ss)) rt)"
proof (induction "SMGR_N_STREAMS - i" arbitrary: i rt)
  case 0
  then have ni: "\<not> i < SMGR_N_STREAMS" by simp
  have d: "drop i (take (nat (sint idx)) ss) = []" using assms 0 by simp
  show ?case by (subst sync_loop.simps) (simp add: ni d synced_Nil)
next
  case (Suc n)
  show ?case
  proof (cases "int i < sint idx")
    case False
    then have "drop i (take (nat (sint idx)) ss) = []" by simp
    with False show ?thesis
      by (simp add: sync_loop.simps [of idx i this rt] synced_Nil)
  next
    case True
    from Suc.hyps(2) have lt: "i < SMGR_N_STREAMS" by simp
    with True have i: "i < length ss" "i < nat (sint idx)" using assms by auto
    have ld: "load (streams this) i = Inr (ss ! i)" using i assms by simp
    have mem: "ss ! i \<in> set (live_streams rt)" using i Suc.prems by auto
    let ?rt1 = "snd (cudaStreamSynchronize (ss ! i) rt)"
    have live1: "set ss \<subseteq> set (live_streams ?rt1)"
      using Suc.prems by (auto simp: cudaStreamSynchronize_def logged_def)
    have "n = SMGR_N_STREAMS - (i + 1)" using Suc.hyps(2) by simp
    from Suc.hyps(1) [OF this live1] lt
    have "sync_loop idx (i + 1) (this, ?rt1) =
            (Inr (), this, synced (drop (i + 1) (take (nat (sint idx)) ss)) ?rt1)"
      by simp
    moreover have "drop i (take (nat (sint idx)) ss) = ss ! i # drop (i + 1) (take (nat (sint idx)) ss)"
      using i by (simp add: Cons_nth_drop_Suc [symmetric])
    ultimately show ?thesis
      using True lt ld mem by (simp add: sync_loop.simps [of idx i this rt] synced_Cons)
  qed
qed

lemma sync_loop_frame:
  "sync_loop idx i (this, rt) = (r, this', rt') \<Longrightarrow>
     this' = this \<and> live_streams rt' = live_streams rt \<and> live_handles rt' = live_handles rt \<and>
     bound rt' = bound rt"
proof (induction "SMGR_N_STREAMS - i" arbitrary: i rt)
  case 0
  then have ni: "\<not> i < SMGR_N_STREAMS" by simp
  from 0(2) show ?case by (subst (asm) sync_loop.simps) (simp add: ni)
next
  case (Suc n)
  show ?case
  proof (cases "int i < sint idx \<and> i < SMGR_N_STREAMS")
    case False
    with Suc.prems show ?thesis by (simp add: sync_loop.simps [of idx i this rt])
  next
    case True
    show ?thesis
    proof (cases "load (streams this) i")
      case (Inl e)
      with True Suc.prems show ?thesis by (simp add: sync_loop.simps [of idx i this rt])
    next
      case (Inr s)
      with True Suc.prems have l: "sync_loop idx (i + 1) (this, snd (cudaStreamSynchronize s rt)) = (r, this', rt')"
        by (simp add: sync_loop.simps [of idx i this rt])
      have "n = SMGR_N_STREAMS - (i + 1)" using Suc.hyps(2) by simp
      from Suc.hyps(1) [OF this l] show ?thesis
        by (auto simp: cudaStreamSynchronize_def logged_def split: if_splits)
    qed
  qed
qed

lemma client_step_pool_ok:
  "pool_ok ss hs st \<Longrightarrow> pool_ok ss hs (client_step c st)"
proof (cases st)
  case (Pair this rt)
  assume ok: "pool_ok ss hs st"
  show ?thesis
  proof (cases c)
    case (CallSync k)
    obtain r this' rt' where s: "sync_loop k 0 (this, rt) = (r, this', rt')"
      by (cases "sync_loop k 0 (this, rt)") auto
    from sync_loop_frame [OF s] ok Pair CallSync s show ?thesis
      by (auto simp: pool_ok_def sync_def)
  qed (use ok Pair in \<open>auto simp: pool_ok_def stream_def handle_def launch_def split: sum.splits\<close>)
qed

lemma client_run_pool_ok:
  "pool_ok ss hs st \<Longrightarrow> pool_ok ss hs (client_run ops st)"
  unfolding client_run_def
  by (induction ops arbitrary: st) (simp_all add: client_step_pool_ok)


section \<open>Claims about a live manager\<close>

lemma slot_less: "unat (idx mod of_nat SMGR_N_STREAMS :: size_t) < SMGR_N_STREAMS"
  by (simp add: SMGR_N_STREAMS_def unat_mod)

lemma slot_wraps: "(idx + of_nat SMGR_N_STREAMS) mod of_nat SMGR_N_STREAMS = (idx mod of_nat SMGR_N_STREAMS :: size_t)"
  by (simp add: SMGR_N_STREAMS_def word_unat_eq_iff unat_mod unat_word_ariths mod_mod_cancel)

lemma live_pool_ok:
  assumes "setup_smgr dev st0 = (Inr (), st1)" "client_run ops st1 = st"
  shows "\<exists>ss hs. pool_ok ss hs st"
proof -
  obtain this0 rt0 where "st0 = (this0, rt0)" by (cases st0)
  with assms(1) have "pool_ok [next_stream rt0..<next_stream rt0 + SMGR_N_STREAMS]
           [next_handle rt0..<next_handle rt0 + SMGR_N_STREAMS] st1"
    by (simp add: setup_pool_ok)
  from client_run_pool_ok [OF this, of ops] assms(2) show ?thesis by blast
qed

lemma sync_live:
  assumes "pool_ok ss hs (this, rt)" "\<not> use_default this"
  shows "sync k (this, rt) = (Inr (), this, synced (take (nat (sint k)) ss) rt)"
  using assms sync_loop_live [of this ss rt 0 k]
  by (simp add: sync_def pool_ok_def)

lemma demo_setup: "setup_smgr 1 (blank_manager 1, demo_rt) = (Inr (), demo_live)"
proof -
  have "fst (setup_smgr 1 (blank_manager 1, demo_rt)) = Inr ()" by code_simp
  then show ?thesis
    by (simp add: demo_live_def new_CudaStreamManager_def prod_eq_iff)
qed

text \<open>
  Claim C1. Take a manager on which \<^verbatim>\<open>setup\<close> has returned, after any use by its
  callers, with \<^verbatim>\<open>use_default\<close> false, and a non-negative \<open>k\<close>. Then \<^verbatim>\<open>sync(k)\<close>
  returns normally; it calls \<^verbatim>\<open>cudaStreamSynchronize\<close> on the streams in the slots
  \<open>0, \<dots>, min k 16 - 1\<close>, in this order, and makes no other call; afterwards no work is
  pending on these streams, and the work pending on every other stream is what it
  was, in particular on the streams of the slots from \<open>min k 16\<close> on, which are
  different streams. Nothing else in the runtime changes. \<^verbatim>\<open>sync(0)\<close> changes nothing,
  and for \<open>k > 16\<close> the call does what \<^verbatim>\<open>sync(16)\<close> does.
\<close>

theorem sync_waits_on_prefix:
  assumes "setup_smgr dev st0 = (Inr (), st1)"
    and "client_run ops st1 = (this, rt)"
    and "\<not> use_default this"
    and "0 \<le> sint k"
  shows "\<exists>ss. streams this = Array (map Some ss) \<and> length ss = SMGR_N_STREAMS \<and>
           distinct ss \<and> set ss \<subseteq> set (live_streams rt) \<and>
           (let n = min (nat (sint k)) SMGR_N_STREAMS;
                rt' = snd (snd (sync k (this, rt)))
            in sync k (this, rt) = (Inr (), this, rt') \<and>
               calls rt' = calls rt @ map StreamSynchronize (take n ss) \<and>
               (\<forall>j<n. pending rt' (ss ! j) = 0) \<and>
               (\<forall>s. s \<notin> set (take n ss) \<longrightarrow> pending rt' s = pending rt s) \<and>
               (\<forall>j. n \<le> j \<and> j < SMGR_N_STREAMS \<longrightarrow> ss ! j \<notin> set (take n ss)) \<and>
               rt'\<lparr>pending := pending rt, calls := calls rt\<rparr> = rt \<and>
               (k = 0 \<longrightarrow> rt' = rt) \<and>
               (int SMGR_N_STREAMS < sint k \<longrightarrow>
                  sync k (this, rt) = sync (of_nat SMGR_N_STREAMS) (this, rt)))"
proof -
  from live_pool_ok [OF assms(1,2)] obtain ss hs where ok: "pool_ok ss hs (this, rt)" by blast
  then have ss: "streams this = Array (map Some ss)" "length ss = SMGR_N_STREAMS"
    "distinct ss" "set ss \<subseteq> set (live_streams rt)"
    by (simp_all add: pool_ok_def)
  let ?n = "min (nat (sint k)) SMGR_N_STREAMS"
  have tk: "take (nat (sint k)) ss = take ?n ss" using ss(2) by (simp add: min_def)
  have s: "sync k (this, rt) = (Inr (), this, synced (take ?n ss) rt)"
    using sync_live [OF ok assms(3), of k] tk by simp
  have a: "\<forall>j<?n. pending (synced (take ?n ss) rt) (ss ! j) = 0"
    using ss(2) by (auto simp: synced_def in_set_conv_nth)
  have b: "\<forall>j. ?n \<le> j \<and> j < SMGR_N_STREAMS \<longrightarrow> ss ! j \<notin> set (take ?n ss)"
    using ss(2,3) by (auto simp: in_set_conv_nth nth_eq_iff_index_eq)
  have c: "k = 0 \<longrightarrow> synced (take ?n ss) rt = rt"
    by (simp add: synced_Nil)
  have "sint (of_nat SMGR_N_STREAMS :: c_int) = int SMGR_N_STREAMS"
    by (simp add: SMGR_N_STREAMS_def)
  then have d: "int SMGR_N_STREAMS < sint k \<longrightarrow>
       sync k (this, rt) = sync (of_nat SMGR_N_STREAMS) (this, rt)"
    using sync_live [OF ok assms(3)] ss(2) by simp
  show ?thesis
    apply (rule exI [of _ ss])
    using ss s a b c d
    by (simp add: Let_def synced_def)
qed

theorem sync_waits_on_prefix_witness:
  "setup_smgr 1 (blank_manager 1, demo_rt) = (Inr (), demo_live) \<and>
   client_run [Submit 10, Submit 2] demo_live =
     (fst (client_run [Submit 10, Submit 2] demo_live), snd (client_run [Submit 10, Submit 2] demo_live)) \<and>
   \<not> use_default (fst (client_run [Submit 10, Submit 2] demo_live)) \<and>
   0 \<le> sint (5 :: c_int) \<and>
   (\<exists>ss. streams (fst (client_run [Submit 10, Submit 2] demo_live)) = Array (map Some ss) \<and>
      calls (snd (snd (sync 5 (client_run [Submit 10, Submit 2] demo_live)))) =
        calls (snd (client_run [Submit 10, Submit 2] demo_live)) @ map StreamSynchronize (take 5 ss))"
proof -
  let ?st = "client_run [Submit 10, Submit 2] demo_live"
  have h2: "?st = (fst ?st, snd ?st)" by simp
  have h3: "\<not> use_default (fst ?st)" by code_simp
  have h4: "0 \<le> sint (5 :: c_int)" by simp
  from sync_waits_on_prefix [OF demo_setup h2 h3 h4]
  show ?thesis using demo_setup h3 by (auto simp: Let_def SMGR_N_STREAMS_def)
qed

lemma accessors_live:
  assumes "pool_ok ss hs (this, rt)" "\<not> use_default this"
  shows "stream i (this, rt) = (Inr (ss ! unat (i mod of_nat SMGR_N_STREAMS)), this, rt)"
    and "handle i (this, rt) = (Inr (hs ! unat (i mod of_nat SMGR_N_STREAMS)), this, rt)"
  using assms slot_less [of i]
  by (simp_all add: stream_def handle_def pool_ok_def)




text \<open>
  Claim C4. On a live manager with \<^verbatim>\<open>use_default\<close> false, \<^verbatim>\<open>stream(i)\<close> and
  \<^verbatim>\<open>stream(i + 16)\<close> are the same call, and so are \<^verbatim>\<open>handle(i)\<close> and \<^verbatim>\<open>handle(i + 16)\<close>
  (the addition is the one of \<^verbatim>\<open>size_t\<close>, which wraps); both return an object; and
  indices in different slots give different streams.
\<close>

theorem slots_periodic_and_distinct:
  assumes "setup_smgr dev st0 = (Inr (), st1)"
    and "client_run ops st1 = (this, rt)"
    and "\<not> use_default this"
  shows "stream i (this, rt) = stream (i + of_nat SMGR_N_STREAMS) (this, rt) \<and>
         handle i (this, rt) = handle (i + of_nat SMGR_N_STREAMS) (this, rt) \<and>
         (\<exists>s. fst (stream i (this, rt)) = Inr s) \<and>
         (\<exists>h. fst (handle i (this, rt)) = Inr h) \<and>
         (i mod of_nat SMGR_N_STREAMS \<noteq> j mod of_nat SMGR_N_STREAMS \<longrightarrow>
            fst (stream i (this, rt)) \<noteq> fst (stream j (this, rt)))"
proof -
  from live_pool_ok [OF assms(1,2)] obtain ss hs where ok: "pool_ok ss hs (this, rt)" by blast
  note acc = accessors_live [OF ok assms(3)]
  have ss: "length ss = SMGR_N_STREAMS" "distinct ss" using ok by (simp_all add: pool_ok_def)
  have "i mod of_nat SMGR_N_STREAMS \<noteq> j mod of_nat SMGR_N_STREAMS \<longrightarrow>
          ss ! unat (i mod of_nat SMGR_N_STREAMS) \<noteq> ss ! unat (j mod of_nat SMGR_N_STREAMS)"
    using ss slot_less [of i] slot_less [of j]
    by (simp add: nth_eq_iff_index_eq word_unat_eq_iff)
  then show ?thesis
    by (simp add: acc slot_wraps)
qed

theorem slots_periodic_and_distinct_witness:
  "setup_smgr 1 (blank_manager 1, demo_rt) = (Inr (), demo_live) \<and>
   \<not> use_default (fst demo_live) \<and>
   stream 3 demo_live = stream (3 + of_nat SMGR_N_STREAMS) demo_live \<and>
   handle 3 demo_live = handle (3 + of_nat SMGR_N_STREAMS) demo_live \<and>
   (3 :: size_t) mod of_nat SMGR_N_STREAMS \<noteq> 20 mod of_nat SMGR_N_STREAMS \<and>
   fst (stream 3 demo_live) \<noteq> fst (stream 20 demo_live)"
proof -
  have h2: "client_run [] demo_live = (fst demo_live, snd demo_live)"
    by (simp add: client_run_def)
  have h3: "\<not> use_default (fst demo_live)" by code_simp
  have h4: "(3 :: size_t) mod of_nat SMGR_N_STREAMS \<noteq> 20 mod of_nat SMGR_N_STREAMS"
    by (simp add: SMGR_N_STREAMS_def)
  note t = slots_periodic_and_distinct [OF demo_setup h2 h3, of 3 20, unfolded prod.collapse]
  from t h4 demo_setup h3 show ?thesis by blast
qed

text \<open>
  Claim C5. With \<^verbatim>\<open>use_default\<close> true, \<^verbatim>\<open>stream(i)\<close> returns the host framework's
  current stream and \<^verbatim>\<open>handle(i)\<close> its current handle, whatever \<open>i\<close> is and whatever the
  two array pointers hold; \<^verbatim>\<open>sync(k)\<close> returns at once, with no call to the runtime
  and the state as it was.
\<close>

theorem default_mode_forwards:
  assumes "use_default this"
  shows "stream i (this, rt) = (Inr (getCurrentCUDAStream rt), this, rt) \<and>
         handle i (this, rt) = (Inr (getCurrentCUDABlasHandle rt), this, rt) \<and>
         sync k (this, rt) = (Inr (), this, rt) \<and>
         fst (stream i (this\<lparr>streams := a, handles := b\<rparr>, rt)) = fst (stream j (this, rt)) \<and>
         fst (handle i (this\<lparr>streams := a, handles := b\<rparr>, rt)) = fst (handle j (this, rt)) \<and>
         calls (snd (snd (sync k (this\<lparr>streams := a, handles := b\<rparr>, rt)))) = calls rt"
  using assms by (simp add: stream_def handle_def sync_def)

theorem default_mode_forwards_witness:
  "use_default ((fst demo_live)\<lparr>use_default := True\<rparr>) \<and>
   fst (stream 7 ((fst demo_live)\<lparr>use_default := True\<rparr>, snd demo_live)) = Inr 0 \<and>
   fst (handle 7 ((fst demo_live)\<lparr>use_default := True\<rparr>, snd demo_live)) = Inr 0 \<and>
   sync 16 ((fst demo_live)\<lparr>use_default := True\<rparr>, snd demo_live) =
     (Inr (), (fst demo_live)\<lparr>use_default := True\<rparr>, snd demo_live)"
proof -
  have h: "use_default ((fst demo_live)\<lparr>use_default := True\<rparr>)" by simp
  have c: "current_stream (snd demo_live) = 0" "current_blas_handle (snd demo_live) = 0"
    by code_simp+
  from default_mode_forwards [OF h, of 7 "snd demo_live" 16] h c
  show ?thesis by (simp add: getCurrentCUDAStream_def getCurrentCUDABlasHandle_def)
qed

text \<open>
  Claim C9. For a negative argument, on any manager in any state, \<^verbatim>\<open>sync\<close> returns
  normally and changes nothing: the signed comparison \<^verbatim>\<open>i < idx\<close> fails at \<open>i = 0\<close>.
  It does what \<^verbatim>\<open>sync(0)\<close> does.
\<close>

theorem sync_negative_is_noop:
  assumes "sint k < 0"
  shows "sync k (this, rt) = (Inr (), this, rt) \<and> sync k (this, rt) = sync 0 (this, rt)"
  using assms by (simp add: sync_def sync_loop.simps [of _ 0])

theorem sync_negative_is_noop_witness:
  "sint (- 3 :: c_int) < 0 \<and>
   sync (- 3) demo_live = (Inr (), demo_live) \<and>
   sync (- 3) (blank_manager 0, demo_rt) = (Inr (), blank_manager 0, demo_rt)"
proof -
  have h: "sint (- 3 :: c_int) < 0" by simp
  from sync_negative_is_noop [OF h, of "fst demo_live" "snd demo_live"]
    sync_negative_is_noop [OF h, of "blank_manager 0" demo_rt] h
  show ?thesis by simp
qed

text \<open>
  Claim C10. With \<^verbatim>\<open>use_default\<close> true and both array pointers unusable, as on a
  manager on which \<^verbatim>\<open>setup\<close> never ran, \<^verbatim>\<open>stream\<close>, \<^verbatim>\<open>handle\<close> and \<^verbatim>\<open>sync\<close> return
  normally for every argument. On the same object with \<^verbatim>\<open>use_default\<close> false the
  accessors read the pointer and fail, and so does \<^verbatim>\<open>sync\<close> for a positive argument.
\<close>

theorem default_mode_needs_no_setup:
  assumes "use_default this"
  shows "fst (stream idx (this\<lparr>streams := Invalid, handles := Invalid\<rparr>, rt)) = Inr (getCurrentCUDAStream rt) \<and>
         fst (handle idx (this\<lparr>streams := Invalid, handles := Invalid\<rparr>, rt)) = Inr (getCurrentCUDABlasHandle rt) \<and>
         fst (sync k (this\<lparr>streams := Invalid, handles := Invalid\<rparr>, rt)) = Inr () \<and>
         fst (stream idx (this\<lparr>use_default := False, streams := Invalid, handles := Invalid\<rparr>, rt)) = Inl InvalidPointer \<and>
         fst (handle idx (this\<lparr>use_default := False, streams := Invalid, handles := Invalid\<rparr>, rt)) = Inl InvalidPointer \<and>
         (0 < sint k \<longrightarrow>
            fst (sync k (this\<lparr>use_default := False, streams := Invalid, handles := Invalid\<rparr>, rt)) = Inl InvalidPointer)"
  using assms
  by (simp add: stream_def handle_def sync_def sync_loop.simps [of _ 0] SMGR_N_STREAMS_def)

theorem default_mode_needs_no_setup_witness:
  "use_default ((blank_manager 0)\<lparr>use_default := True\<rparr>) \<and>
   (blank_manager 0)\<lparr>use_default := True, streams := Invalid, handles := Invalid\<rparr> = (blank_manager 0)\<lparr>use_default := True\<rparr> \<and>
   fst (stream 5 ((blank_manager 0)\<lparr>use_default := True\<rparr>, demo_rt)) = Inr 0 \<and>
   fst (handle 5 ((blank_manager 0)\<lparr>use_default := True\<rparr>, demo_rt)) = Inr 0 \<and>
   fst (sync 5 ((blank_manager 0)\<lparr>use_default := True\<rparr>, demo_rt)) = Inr () \<and>
   0 < sint (5 :: c_int) \<and>
   fst (sync 5 (blank_manager 0, demo_rt)) = Inl InvalidPointer"
proof -
  have h: "use_default ((blank_manager 0)\<lparr>use_default := True\<rparr>)" by simp
  have e: "(blank_manager 0)\<lparr>use_default := True, streams := Invalid, handles := Invalid\<rparr> = (blank_manager 0)\<lparr>use_default := True\<rparr>"
    "(blank_manager 0)\<lparr>use_default := False, streams := Invalid, handles := Invalid\<rparr> = blank_manager 0"
    by (simp_all add: blank_manager_def)
  from default_mode_needs_no_setup [OF h, of 5 demo_rt 5] h e
  show ?thesis
    by (simp add: getCurrentCUDAStream_def getCurrentCUDABlasHandle_def demo_rt_def)
qed

text \<open>
  Claim C8. \<^verbatim>\<open>stream(idx)\<close> and \<^verbatim>\<open>handle(idx)\<close> leave the manager and the runtime as
  they were; called through a pointer, they leave the whole process as it was: every
  field of every manager, the map \<^verbatim>\<open>smgrs\<close>, the mutex and the runtime.
\<close>

theorem accessors_change_nothing:
  "snd (stream idx st) = st \<and> snd (handle idx st) = st \<and>
   snd (invoke a (stream idx) p) = p \<and> snd (invoke a (handle idx) p) = p"
  by (cases st) (simp add: invoke_def stream_def handle_def fun_upd_idem split: option.split)


section \<open>Teardown and failure of \<^verbatim>\<open>setup\<close>\<close>

lemma released_calls:
  "calls (released xs rt) = calls rt @ concat (map (\<lambda>(s, h). [StreamDestroy s, BlasDestroy h]) xs)"
  by (induction xs rt rule: released.induct)
     (simp_all add: cudaStreamDestroy_def cublasDestroy_def logged_def)

lemma released_live_streams:
  "live_streams (released xs rt) = filter (\<lambda>s. s \<notin> fst ` set xs) (live_streams rt)"
proof (induction xs rt rule: released.induct)
  case (2 s h xs rt)
  have "filter (\<lambda>x. x \<notin> fst ` set xs) (removeAll s (live_streams rt)) =
        filter (\<lambda>x. x \<noteq> s \<and> x \<notin> fst ` set xs) (live_streams rt)"
    by (simp add: removeAll_filter_not_eq conj_commute) metis
  then show ?case using 2
    by (auto simp: cudaStreamDestroy_def cublasDestroy_def logged_def filter_id_conv intro!: filter_cong)
qed simp


lemma released_live_handles:
  "live_handles (released xs rt) = filter (\<lambda>h. h \<notin> snd ` set xs) (live_handles rt)"
proof (induction xs rt rule: released.induct)
  case (2 s h xs rt)
  have "filter (\<lambda>x. x \<notin> snd ` set xs) (removeAll h (live_handles rt)) =
        filter (\<lambda>x. x \<noteq> h \<and> x \<notin> snd ` set xs) (live_handles rt)"
    by (simp add: removeAll_filter_not_eq conj_commute) metis
  then show ?case using 2
    by (auto simp: cudaStreamDestroy_def cublasDestroy_def logged_def filter_id_conv intro!: filter_cong)
qed simp

lemma destroy_body_live:
  assumes "streams this = Array (map Some ss)" "handles this = Array (map Some hs)"
    "i < length ss" "i < length hs"
    "ss ! i \<in> set (live_streams rt)" "hs ! i \<in> set (live_handles rt)"
  shows "destroy_body i (this, rt) =
           (Inr (), this, snd (cublasDestroy (hs ! i) (snd (cudaStreamDestroy (ss ! i) rt))))"
  using assms
  by (simp add: destroy_body_def cudaStreamDestroy_def cublasDestroy_def checkCudaErrors_def logged_def)

lemma destroy_loop_live:
  assumes "streams this = Array (map Some ss)" "handles this = Array (map Some hs)"
    "length ss = SMGR_N_STREAMS" "length hs = SMGR_N_STREAMS" "distinct ss" "distinct hs"
  shows "set (drop i ss) \<subseteq> set (live_streams rt) \<Longrightarrow> set (drop i hs) \<subseteq> set (live_handles rt) \<Longrightarrow>
         destroy_loop i (this, rt) = (Inr (), this, released (drop i (zip ss hs)) rt)"
proof (induction "SMGR_N_STREAMS - i" arbitrary: i rt)
  case 0
  then have ni: "\<not> i < SMGR_N_STREAMS" by simp
  then have "drop i (zip ss hs) = []" using assms(3) by simp
  then show ?case by (subst destroy_loop.simps) (simp add: ni)
next
  case (Suc n)
  from Suc.hyps(2) have lt: "i < SMGR_N_STREAMS" by simp
  then have i: "i < length ss" "i < length hs" using assms by simp_all
  have ds: "drop i ss = ss ! i # drop (i + 1) ss" "drop i hs = hs ! i # drop (i + 1) hs"
    using i by (simp_all add: Cons_nth_drop_Suc)
  have mem: "ss ! i \<in> set (live_streams rt)" "hs ! i \<in> set (live_handles rt)"
    using Suc.prems ds by auto
  let ?rt1 = "snd (cublasDestroy (hs ! i) (snd (cudaStreamDestroy (ss ! i) rt)))"
  have b: "destroy_body i (this, rt) = (Inr (), this, ?rt1)"
    by (rule destroy_body_live [OF assms(1,2) i mem])
  have live1: "live_streams ?rt1 = removeAll (ss ! i) (live_streams rt)"
    "live_handles ?rt1 = removeAll (hs ! i) (live_handles rt)"
    using mem by (simp_all add: cudaStreamDestroy_def cublasDestroy_def logged_def)
  have "distinct (drop i ss)" "distinct (drop i hs)" using assms by simp_all
  then have notin: "ss ! i \<notin> set (drop (i + 1) ss)" "hs ! i \<notin> set (drop (i + 1) hs)"
    using ds by (metis distinct.simps(2))+
  have sub: "set (drop (i + 1) ss) \<subseteq> set (live_streams ?rt1)"
    "set (drop (i + 1) hs) \<subseteq> set (live_handles ?rt1)"
    using Suc.prems ds notin live1 by auto
  have "n = SMGR_N_STREAMS - (i + 1)" using Suc.hyps(2) by simp
  from Suc.hyps(1) [OF this sub]
  have "destroy_loop (i + 1) (this, ?rt1) = (Inr (), this, released (drop (i + 1) (zip ss hs)) ?rt1)" .
  moreover have "drop i (zip ss hs) = (ss ! i, hs ! i) # drop (i + 1) (zip ss hs)"
    using i by (simp add: Cons_nth_drop_Suc [symmetric])
  ultimately show ?case
    by (subst destroy_loop.simps) (simp add: lt b)
qed

lemma destroy_live:
  assumes "pool_ok ss hs (this, rt)"
  shows "destroy (this, rt) =
           (Inr (), this\<lparr>streams := Invalid, handles := Invalid\<rparr>, released (zip ss hs) rt)"
  using assms destroy_loop_live [of this ss hs 0 rt]
  by (simp add: pool_ok_def destroy_def)

lemma count_release_calls:
  "length ss = length hs \<Longrightarrow> distinct ss \<Longrightarrow> distinct hs \<Longrightarrow>
     count_list (concat (map (\<lambda>(s, h). [StreamDestroy s, BlasDestroy h]) (zip ss hs))) (StreamDestroy x)
       = (if x \<in> set ss then 1 else 0) \<and>
     count_list (concat (map (\<lambda>(s, h). [StreamDestroy s, BlasDestroy h]) (zip ss hs))) (BlasDestroy y)
       = (if y \<in> set hs then 1 else 0)"
  by (induction ss hs rule: list_induct2) auto

lemma set_zip_proj:
  "length xs = length ys \<Longrightarrow> fst ` set (zip xs ys) = set xs \<and> snd ` set (zip xs ys) = set ys"
  by (metis map_fst_zip map_snd_zip set_map)

lemma live_pool_fresh:
  assumes "setup_smgr dev (this0, rt0) = (Inr (), st1)" "client_run ops st1 = st"
  shows "pool_ok [next_stream rt0..<next_stream rt0 + SMGR_N_STREAMS]
           [next_handle rt0..<next_handle rt0 + SMGR_N_STREAMS] st"
  using client_run_pool_ok [OF setup_pool_ok [OF assms(1)], of ops] assms(2) by simp

lemma setup_effect:
  assumes "setup_smgr dev (this0, rt0) = (Inr (), this1, rt1)"
  shows "calls rt1 = calls rt0 @ SetDevice dev #
           concat (map (\<lambda>j. [StreamCreate, BlasCreate,
                     BlasSetStream (next_handle rt0 + j) (next_stream rt0 + j)]) [0..<SMGR_N_STREAMS])"
    and "live_streams rt1 = live_streams rt0 @ [next_stream rt0..<next_stream rt0 + SMGR_N_STREAMS]"
    and "live_handles rt1 = live_handles rt0 @ [next_handle rt0..<next_handle rt0 + SMGR_N_STREAMS]"
  using setup_success [OF assms] by (simp_all add: setup_inv_def logged_def)

text \<open>
  Claim C7. Take a manager on which \<^verbatim>\<open>setup\<close> has returned, after any use by its
  callers. \<^verbatim>\<open>setup\<close> made 16 calls of \<^verbatim>\<open>cudaStreamCreate\<close> and 16 of \<^verbatim>\<open>cublasCreate\<close>,
  which gave the streams \<open>ss\<close> and the handles \<open>hs\<close> held in the arrays. One call of
  \<^verbatim>\<open>destroy\<close> returns normally; the calls it makes are \<^verbatim>\<open>cudaStreamDestroy\<close> and
  \<^verbatim>\<open>cublasDestroy\<close> on the slots in turn, so that each stream of \<open>ss\<close> and each handle of
  \<open>hs\<close> is destroyed by exactly one call and nothing else is destroyed; afterwards none
  of them is live, and both array pointers are unusable.
\<close>

theorem destroy_releases_each_once:
  assumes "setup_smgr dev (this0, rt0) = (Inr (), this1, rt1)"
    and "client_run ops (this1, rt1) = (this, rt)"
  shows "\<exists>ss hs this' rt'.
           ss = [next_stream rt0..<next_stream rt0 + SMGR_N_STREAMS] \<and>
           hs = [next_handle rt0..<next_handle rt0 + SMGR_N_STREAMS] \<and>
           live_streams rt1 = live_streams rt0 @ ss \<and>
           live_handles rt1 = live_handles rt0 @ hs \<and>
           calls rt1 = calls rt0 @ SetDevice dev #
             concat (map (\<lambda>j. [StreamCreate, BlasCreate, BlasSetStream (hs ! j) (ss ! j)])
                       [0..<SMGR_N_STREAMS]) \<and>
           streams this = Array (map Some ss) \<and> handles this = Array (map Some hs) \<and>
           destroy (this, rt) = (Inr (), this', rt') \<and>
           streams this' = Invalid \<and> handles this' = Invalid \<and>
           calls rt' = calls rt @
             concat (map (\<lambda>(s, h). [StreamDestroy s, BlasDestroy h]) (zip ss hs)) \<and>
           (\<forall>s. count_list (drop (length (calls rt)) (calls rt')) (StreamDestroy s) =
                  (if s \<in> set ss then 1 else 0)) \<and>
           (\<forall>h. count_list (drop (length (calls rt)) (calls rt')) (BlasDestroy h) =
                  (if h \<in> set hs then 1 else 0)) \<and>
           live_streams rt' = filter (\<lambda>s. s \<notin> set ss) (live_streams rt) \<and>
           live_handles rt' = filter (\<lambda>h. h \<notin> set hs) (live_handles rt)"
proof -
  let ?ss = "[next_stream rt0..<next_stream rt0 + SMGR_N_STREAMS]"
  let ?hs = "[next_handle rt0..<next_handle rt0 + SMGR_N_STREAMS]"
  let ?rt' = "released (zip ?ss ?hs) rt"
  have ok: "pool_ok ?ss ?hs (this, rt)" by (rule live_pool_fresh [OF assms])
  note d = destroy_live [OF ok]
  have c: "calls ?rt' = calls rt @ concat (map (\<lambda>(s, h). [StreamDestroy s, BlasDestroy h]) (zip ?ss ?hs))"
    by (rule released_calls)
  have cnt: "\<forall>s. count_list (drop (length (calls rt)) (calls ?rt')) (StreamDestroy s) =
                  (if s \<in> set ?ss then 1 else 0)"
    "\<forall>h. count_list (drop (length (calls rt)) (calls ?rt')) (BlasDestroy h) =
                  (if h \<in> set ?hs then 1 else 0)"
    using count_release_calls [of ?ss ?hs] by (simp_all add: c)
  have l: "live_streams ?rt' = filter (\<lambda>s. s \<notin> set ?ss) (live_streams rt)"
    "live_handles ?rt' = filter (\<lambda>h. h \<notin> set ?hs) (live_handles rt)"
    using set_zip_proj [of ?ss ?hs]
    by (simp_all only: released_live_streams released_live_handles length_upt add_diff_cancel_left')
  have e: "calls rt1 = calls rt0 @ SetDevice dev #
             concat (map (\<lambda>j. [StreamCreate, BlasCreate, BlasSetStream (?hs ! j) (?ss ! j)])
                       [0..<SMGR_N_STREAMS])"
  proof -
    have "map (\<lambda>j. [StreamCreate, BlasCreate, BlasSetStream (?hs ! j) (?ss ! j)]) [0..<SMGR_N_STREAMS] =
          map (\<lambda>j. [StreamCreate, BlasCreate,
                     BlasSetStream (next_handle rt0 + j) (next_stream rt0 + j)]) [0..<SMGR_N_STREAMS]"
      by (rule map_cong [OF refl]) simp
    then show ?thesis by (simp only: setup_effect(1) [OF assms(1)])
  qed
  show ?thesis
    apply (rule exI [of _ ?ss], rule exI [of _ ?hs])
    apply (rule exI [of _ "this\<lparr>streams := Invalid, handles := Invalid\<rparr>"], rule exI [of _ ?rt'])
    using ok d c cnt l e setup_effect(2,3) [OF assms(1)]
    apply (simp add: pool_ok_def)
    done
qed

theorem destroy_releases_each_once_witness:
  "setup_smgr 1 (blank_manager 1, demo_rt) = (Inr (), fst demo_live, snd demo_live) \<and>
   client_run [Submit 4, CallSync 16] (fst demo_live, snd demo_live) =
     (fst (client_run [Submit 4, CallSync 16] demo_live), snd (client_run [Submit 4, CallSync 16] demo_live)) \<and>
   (\<exists>this' rt'. destroy (client_run [Submit 4, CallSync 16] demo_live) = (Inr (), this', rt') \<and>
      streams this' = Invalid \<and>
      (\<forall>s. count_list (drop (length (calls (snd (client_run [Submit 4, CallSync 16] demo_live)))) (calls rt'))
               (StreamDestroy s) = (if s \<in> set [next_stream demo_rt..<next_stream demo_rt + SMGR_N_STREAMS] then 1 else 0)))"
proof -
  let ?st = "client_run [Submit 4, CallSync 16] demo_live"
  have h1: "setup_smgr 1 (blank_manager 1, demo_rt) = (Inr (), fst demo_live, snd demo_live)"
    using demo_setup by simp
  have h2: "client_run [Submit 4, CallSync 16] (fst demo_live, snd demo_live) = (fst ?st, snd ?st)"
    by simp
  from destroy_releases_each_once [OF h1 h2]
  obtain this' rt' where "destroy (fst ?st, snd ?st) = (Inr (), this', rt')" "streams this' = Invalid"
    "\<forall>s. count_list (drop (length (calls (snd ?st))) (calls rt')) (StreamDestroy s) =
       (if s \<in> set [next_stream demo_rt..<next_stream demo_rt + SMGR_N_STREAMS] then 1 else 0)"
    by blast
  with h1 h2 show ?thesis by (simp only: prod.collapse) blast
qed

lemma setup_body_failure:
  assumes "setup_inv r0 j (this, rt)" "j < SMGR_N_STREAMS" "setup_body j (this, rt) = (Inl e, this', rt')"
  shows "e = CudaCheckFailed \<and>
         filter is_release (calls rt') = filter is_release (calls rt) \<and>
         (live_streams rt' = live_streams rt \<or> live_streams rt' = live_streams rt @ [next_stream rt]) \<and>
         live_handles rt' = live_handles rt"
  using assms
  by (auto simp: setup_inv_def setup_body_def cudaStreamCreate_def cublasCreate_def
       checkCudaErrors_def out_param_def logged_def
       split: if_splits sum.splits option.splits)

lemma setup_inv_no_release:
  "setup_inv r0 j (this, rt) \<Longrightarrow> filter is_release (calls rt) = filter is_release (calls r0)"
  by (simp add: setup_inv_def)

text \<open>
  Claim C6, as amended. When \<^verbatim>\<open>setup\<close> fails, the error is the one of
  \<^verbatim>\<open>checkCudaErrors\<close>, and \<^verbatim>\<open>setup\<close> has made no call of \<^verbatim>\<open>cudaStreamDestroy\<close> or
  \<^verbatim>\<open>cublasDestroy\<close>: the streams and handles created by the iterations before the
  failing step are all still allocated when the error is surfaced. (The claim as
  stated, that they are released first, fails: see the counterexample below.)
\<close>

theorem failed_setup_releases_nothing:
  assumes "setup_smgr dev (this, rt) = (Inl e, this', rt')"
  shows "e = CudaCheckFailed \<and>
         filter is_release (calls rt') = filter is_release (calls rt) \<and>
         (\<exists>i j. i < SMGR_N_STREAMS \<and> (j = i \<or> j = i + 1) \<and>
            live_streams rt' = live_streams rt @ [next_stream rt..<next_stream rt + j] \<and>
            live_handles rt' = live_handles rt @ [next_handle rt..<next_handle rt + i])"
proof (cases "0 \<le> dev \<and> dev < int (device_count rt)")
  case False
  with assms have "e = CudaCheckFailed" "rt' = logged (SetDevice dev) rt"
    by (auto simp: setup_smgr_def cudaSetDevice_def checkCudaErrors_def)
  then show ?thesis
    by (auto simp: logged_def SMGR_N_STREAMS_def intro!: exI [of _ 0])
next
  case True
  let ?r1 = "logged (SetDevice dev) (rt\<lparr>current_device := dev\<rparr>)"
  let ?t1 = "this\<lparr>device := dev, streams := Array (replicate SMGR_N_STREAMS None),
        handles := Array (replicate SMGR_N_STREAMS None)\<rparr>"
  from True assms have l: "setup_loop 0 (?t1, ?r1) = (Inl e, this', rt')"
    by (simp add: setup_smgr_def cudaSetDevice_def checkCudaErrors_def)
  have "\<exists>j s. j < SMGR_N_STREAMS \<and> setup_inv ?r1 j s \<and> setup_body j s = (Inl e, this', rt')"
  proof (rule setup_loop_failure_rule [where P = "setup_inv ?r1", OF _ l])
    show "setup_inv ?r1 0 (?t1, ?r1)" by (rule setup_inv_start)
  qed (simp only: setup_body_inv)
  then obtain j t2 r2 where j: "j < SMGR_N_STREAMS" and inv: "setup_inv ?r1 j (t2, r2)"
    and b: "setup_body j (t2, r2) = (Inl e, this', rt')"
    by auto
  note f = setup_body_failure [OF inv j b]
  have nr: "filter is_release (calls r2) = filter is_release (calls rt)"
    using setup_inv_no_release [OF inv] by (simp add: logged_def)
  have l2: "live_streams r2 = live_streams rt @ [next_stream rt..<next_stream rt + j]"
    "live_handles r2 = live_handles rt @ [next_handle rt..<next_handle rt + j]"
    "next_stream r2 = next_stream rt + j"
    using inv by (simp_all add: setup_inv_def logged_def)
  from f have "live_streams rt' = live_streams rt @ [next_stream rt..<next_stream rt + j] \<or>
      live_streams rt' = live_streams rt @ [next_stream rt..<next_stream rt + (j + 1)]"
    using l2 by auto
  then have "\<exists>k. (k = j \<or> k = j + 1) \<and>
      live_streams rt' = live_streams rt @ [next_stream rt..<next_stream rt + k] \<and>
      live_handles rt' = live_handles rt @ [next_handle rt..<next_handle rt + j]"
    using f l2 by metis
  with j have "\<exists>i k. i < SMGR_N_STREAMS \<and> (k = i \<or> k = i + 1) \<and>
      live_streams rt' = live_streams rt @ [next_stream rt..<next_stream rt + k] \<and>
      live_handles rt' = live_handles rt @ [next_handle rt..<next_handle rt + i]"
    by blast
  with f nr show ?thesis by simp
qed

theorem failed_setup_releases_nothing_witness:
  "fst (setup_smgr 1 (blank_manager 1, demo_rt\<lparr>max_streams := 3\<rparr>)) = Inl CudaCheckFailed \<and>
   filter is_release (calls (snd (snd (setup_smgr 1 (blank_manager 1, demo_rt\<lparr>max_streams := 3\<rparr>))))) =
     filter is_release (calls (demo_rt\<lparr>max_streams := 3\<rparr>))"
proof -
  let ?r = "setup_smgr 1 (blank_manager 1, demo_rt\<lparr>max_streams := 3\<rparr>)"
  have h: "fst ?r = Inl CudaCheckFailed" by code_simp
  then have "?r = (Inl CudaCheckFailed, fst (snd ?r), snd (snd ?r))" by (simp add: prod_eq_iff)
  from failed_setup_releases_nothing [OF this] h show ?thesis by simp
qed

text \<open>
  Claim C6 as stated fails. On a runtime with room for three streams, one of them
  in use, \<^verbatim>\<open>setup\<close> fails at the third \<^verbatim>\<open>cudaStreamCreate\<close>; the streams 1 and 2 and the
  handles 1 and 2 that it created are still live, and no release call was made.
\<close>

theorem failed_setup_keeps_allocations_counterexample:
  "fst (setup_smgr 1 (blank_manager 1, demo_rt\<lparr>max_streams := 3\<rparr>)) = Inl CudaCheckFailed \<and>
   live_streams (demo_rt\<lparr>max_streams := 3\<rparr>) = [0] \<and>
   live_handles (demo_rt\<lparr>max_streams := 3\<rparr>) = [0] \<and>
   live_streams (snd (snd (setup_smgr 1 (blank_manager 1, demo_rt\<lparr>max_streams := 3\<rparr>)))) = [0, 1, 2] \<and>
   live_handles (snd (snd (setup_smgr 1 (blank_manager 1, demo_rt\<lparr>max_streams := 3\<rparr>)))) = [0, 1, 2] \<and>
   calls (snd (snd (setup_smgr 1 (blank_manager 1, demo_rt\<lparr>max_streams := 3\<rparr>)))) =
     [SetDevice 1, StreamCreate, BlasCreate, BlasSetStream 1 1,
      StreamCreate, BlasCreate, BlasSetStream 2 2, StreamCreate]"
  by code_simp

section \<open>The registry under concurrent first use\<close>

text \<open>
  Claim C2. The claim asks that every call of \<^verbatim>\<open>getCudaStreamManager\<close> for a device
  returns the same pool and that no device gets two pools. One thread alone gets
  that: asking twice for device 1, it constructs one pool and receives it both
  times. Two threads that ask for device 1 for the first time do not: while thread 1
  holds the mutex and is inside \<^verbatim>\<open>smgrs.emplace\<close> (line 74), thread 0 runs
  \<^verbatim>\<open>smgrs.find\<close> at line 68, which takes no lock, so a read of the map overlaps its
  modification and the behaviour is undefined. The lookup of line 71 is under the
  mutex; the one of line 68 is not. The iterator, too, is used at line 82 outside
  the mutex: when another thread's insertion has rehashed the map in between, it is
  no longer valid.
\<close>

theorem concurrent_first_touch_races:
  "undefined_behaviour (exec one_thread_twice (boot demo_rt)) = None \<and>
   returned (exec one_thread_twice (boot demo_rt)) = [(0, 1, 1), (0, 1, 1)] \<and>
   constructed (exec one_thread_twice (boot demo_rt)) = [(1, 1)] \<and>
   undefined_behaviour (exec (butlast first_touch_race) (boot demo_rt)) = None \<and>
   threads (exec (butlast first_touch_race) (boot demo_rt)) 0 = Line68 1 \<and>
   threads (exec (butlast first_touch_race) (boot demo_rt)) 1 = In74 1 1 \<and>
   smgr_mtx (exec (butlast first_touch_race) (boot demo_rt)) = Some 1 \<and>
   undefined_behaviour (exec first_touch_race (boot demo_rt)) = Some DataRace \<and>
   undefined_behaviour (exec (butlast stale_iterator) (boot demo_rt)) = None \<and>
   threads (exec (butlast stale_iterator) (boot demo_rt)) 0 = Line82 0 0 \<and>
   rehashes (exec (butlast stale_iterator) (boot demo_rt)) = 1 \<and>
   undefined_behaviour (exec stale_iterator (boot demo_rt)) = Some InvalidIterator"
  by code_simp


end
